theory Spec2Isabelle
  imports Main
begin

section \<open>Dining philosophers: binary semaphore and arbitration engine\<close>

text \<open>
  The C++ classes \<open>BinarySemaphore\<close> and \<open>PhilosophersSync\<close> are embedded as records
  with explicit state passing. A member name of the source ends in an underscore, which
  is not a legal name here, so \<open>v_\<close> is the field \<open>sem_v\<close>, \<open>numPhils_\<close> is
  \<open>numPhils\<close>, \<open>states_\<close> is \<open>states\<close>, \<open>sems_\<close> is \<open>sems\<close> and the engine's mutex
  \<open>m_\<close> is \<open>mtx\<close>. Values of type \<open>size_t\<close> are natural numbers.
\<close>

subsection \<open>BinarySemaphore\<close>

record BinarySemaphore =
  sem_v :: nat

text \<open>The constructor clamps its argument: \<open>v_(std::min<size_t>(1, std::max<size_t>(0, v)))\<close>.\<close>

definition BinarySemaphore_new :: "nat \<Rightarrow> BinarySemaphore" where
  "BinarySemaphore_new x = \<lparr>sem_v = min 1 (max 0 x)\<rparr>"

text \<open>
  \<open>release()\<close> stores 1 under the semaphore's own mutex and then notifies one waiter.
  The store is the whole effect on the data; the notification lets a thread that sleeps
  in \<open>cv_.wait\<close> test its predicate again (see \<open>acquire_wakeup\<close>).
\<close>

definition release :: "BinarySemaphore \<Rightarrow> BinarySemaphore" where
  "release g = g\<lparr>sem_v := 1\<rparr>"

text \<open>
  \<open>acquire()\<close> may block, so a call is split where it can sleep. \<open>acquire\<close> is the
  part from the entry of the call to either its return or the point where the caller goes
  to sleep in \<open>cv_.wait(lg, [this] { return v_ == 1; })\<close>; the outcome says which.
  \<open>acquire_wakeup\<close> is what a sleeping caller does when it is notified: the
  predicate is tested again, and the call returns when it holds, with no further
  statement executed (the \<open>else\<close> branch of the source ends with the wait).
\<close>

datatype outcome = Returned | Blocked

definition acquire :: "BinarySemaphore \<Rightarrow> outcome \<times> BinarySemaphore" where
  "acquire g = (if sem_v g = 1 then (Returned, g\<lparr>sem_v := 0\<rparr>) else (Blocked, g))"

definition acquire_wakeup :: "BinarySemaphore \<Rightarrow> outcome \<times> BinarySemaphore" where
  "acquire_wakeup g = (if sem_v g = 1 then (Returned, g) else (Blocked, g))"

subsection \<open>PhilosophersSync\<close>

datatype State = THINKING | HUNGRY | EATING

text \<open>
  The field \<open>released\<close> is not a member of the class: it records, in order, the index
  of every semaphore on which the engine has called \<open>release()\<close>, so that the number of
  calls can be stated.
\<close>

record PhilosophersSync =
  numPhils :: nat
  states :: "State list"
  sems :: "BinarySemaphore list"
  released :: "nat list"

text \<open>
  \<open>operator[]\<close> of \<open>std::vector\<close> has undefined behaviour out of range: the model
  gives no result there.
\<close>

definition at :: "'a list \<Rightarrow> nat \<Rightarrow> 'a option" where
  "at xs i = (if i < length xs then Some (xs ! i) else None)"

text \<open>The loop of the constructor: one \<open>push_back\<close> of a semaphore built with 0 per round.\<close>

fun make_sems :: "nat \<Rightarrow> BinarySemaphore list" where
  "make_sems 0 = []"
| "make_sems (Suc k) = make_sems k @ [BinarySemaphore_new 0]"

text \<open>
  The constructor has no check of \<open>n\<close> and no \<open>throw\<close>; \<open>None\<close> would stand for a
  construction that fails. (Memory is taken as unbounded.)
\<close>

definition PhilosophersSync_new :: "nat \<Rightarrow> PhilosophersSync option" where
  "PhilosophersSync_new n =
     Some \<lparr>numPhils = n, states = replicate n THINKING, sems = make_sems n, released = []\<rparr>"

text \<open>
  \<open>tryToEat\<close>: the three tests are evaluated left to right and \<open>&&\<close> stops at the
  first that fails. The remainder by \<open>numPhils_\<close> is undefined when that is 0. The sum
  \<open>pid + numPhils_ - 1\<close> is computed after \<open>states_[pid]\<close> has been read, so
  \<open>pid\<close> is below the size of a vector and the sum does not wrap in \<open>size_t\<close>.
\<close>

definition tryToEat :: "nat \<Rightarrow> PhilosophersSync \<Rightarrow> PhilosophersSync option" where
  "tryToEat pid e =
     (case at (states e) pid of
        None \<Rightarrow> None
      | Some s \<Rightarrow>
          if s \<noteq> HUNGRY then Some e
          else if numPhils e = 0 then None
          else
            (case at (states e) ((pid + numPhils e - 1) mod numPhils e) of
               None \<Rightarrow> None
             | Some l \<Rightarrow>
                 if l = EATING then Some e
                 else
                   (case at (states e) ((pid + 1) mod numPhils e) of
                      None \<Rightarrow> None
                    | Some r \<Rightarrow>
                        if r = EATING then Some e
                        else
                          (case at (sems e) pid of
                             None \<Rightarrow> None
                           | Some g \<Rightarrow>
                               Some (e\<lparr>states := (states e)[pid := EATING],
                                       sems := (sems e)[pid := release g],
                                       released := released e @ [pid]\<rparr>)))))"

text \<open>The block of \<open>takeForks\<close> that runs under \<open>m_\<close>.\<close>

definition takeForks_locked :: "nat \<Rightarrow> PhilosophersSync \<Rightarrow> PhilosophersSync option" where
  "takeForks_locked pid e =
     (if pid < length (states e)
      then tryToEat pid (e\<lparr>states := (states e)[pid := HUNGRY]\<rparr>)
      else None)"

text \<open>
  \<open>takeForks\<close> run by one thread with no other thread stepping in between: the locked
  block, then \<open>sems_[pid]->acquire()\<close> up to its return or to the point where the caller
  sleeps.
\<close>

definition takeForks :: "nat \<Rightarrow> PhilosophersSync \<Rightarrow> (outcome \<times> PhilosophersSync) option" where
  "takeForks pid e =
     (case takeForks_locked pid e of
        None \<Rightarrow> None
      | Some e1 \<Rightarrow>
          (case at (sems e1) pid of
             None \<Rightarrow> None
           | Some g \<Rightarrow>
               Some (fst (acquire g), e1\<lparr>sems := (sems e1)[pid := snd (acquire g)]\<rparr>)))"

definition putForks :: "nat \<Rightarrow> PhilosophersSync \<Rightarrow> PhilosophersSync option" where
  "putForks pid e =
     (if pid < length (states e) \<and> numPhils e \<noteq> 0
      then
        (case tryToEat ((pid + 1) mod numPhils e) (e\<lparr>states := (states e)[pid := THINKING]\<rparr>) of
           None \<Rightarrow> None
         | Some e1 \<Rightarrow> tryToEat ((pid + numPhils e - 1) mod numPhils e) e1)
      else None)"

text \<open>\<open>getStates\<close> is a \<open>const\<close> member: it returns the copy and the engine as it was.\<close>

definition getStates :: "PhilosophersSync \<Rightarrow> State list \<times> PhilosophersSync" where
  "getStates e = (states e, e)"

text \<open>
  The class invariant: both vectors have \<open>numPhils_\<close> elements. The constructor
  sets it up and no member function changes a length.
\<close>

definition wf :: "PhilosophersSync \<Rightarrow> bool" where
  "wf e = (length (states e) = numPhils e \<and> length (sems e) = numPhils e)"

subsection \<open>Threads\<close>

text \<open>
  Threads call the member functions concurrently. Each thread is at a point of the
  function it runs: before taking \<open>m_\<close> (\<open>TakeLock\<close>, \<open>PutLock\<close>, \<open>GetLock\<close>),
  inside the locked block (\<open>TakeBody\<close>, \<open>PutBody\<close>, \<open>GetBody\<close>), at the end of the
  block where the guard unlocks (\<open>TakeUnlock\<close>, \<open>PutUnlock\<close>, and \<open>GetUnlock\<close> with
  the copy \<open>res\<close> made so far), at the call \<open>sems_[pid]->acquire()\<close>
  (\<open>TakeAcquire\<close>), or asleep in \<open>cv_.wait\<close> (\<open>TakeSleep\<close>). A step of a thread is
  one of these pieces, run without interruption: the locked blocks exclude one another
  through \<open>m_\<close>, and \<open>acquire()\<close> and \<open>release()\<close> through the semaphore's own
  mutex. The field \<open>mtx\<close> is the thread that holds \<open>m_\<close>, if any. A schedule is a
  list of events; \<open>run\<close> gives no result for a schedule that asks a thread for a step
  it cannot take, or that reads a vector out of range.
\<close>

datatype pc =
    Idle
  | TakeLock nat
  | TakeBody nat
  | TakeUnlock nat
  | TakeAcquire nat
  | TakeSleep nat
  | PutLock nat
  | PutBody nat
  | PutUnlock nat
  | GetLock
  | GetBody
  | GetUnlock "State list"

datatype call = TakeForks nat | PutForks nat | GetStates

datatype event = Call nat call | Step nat

record system =
  engine :: PhilosophersSync
  mtx :: "nat option"
  pcs :: "nat \<Rightarrow> pc"

definition system_init :: "PhilosophersSync \<Rightarrow> system" where
  "system_init e = \<lparr>engine = e, mtx = None, pcs = (\<lambda>t. Idle)\<rparr>"

definition set_pc :: "nat \<Rightarrow> pc \<Rightarrow> system \<Rightarrow> system" where
  "set_pc t p s = s\<lparr>pcs := (pcs s)(t := p)\<rparr>"

fun entry :: "call \<Rightarrow> pc" where
  "entry (TakeForks pid) = TakeLock pid"
| "entry (PutForks pid) = PutLock pid"
| "entry GetStates = GetLock"

text \<open>
  The next piece of thread \<open>t\<close>, which is at point \<open>p\<close>. Taking \<open>m_\<close> is possible
  only when no thread holds it. A sleeper may test its predicate at any time (a
  notification or a spurious wake-up); when it finds the predicate false it sleeps again.
\<close>

fun exec :: "nat \<Rightarrow> pc \<Rightarrow> system \<Rightarrow> system option" where
  "exec t Idle s = None"
| "exec t (TakeLock pid) s =
     (if mtx s = None then Some (set_pc t (TakeBody pid) (s\<lparr>mtx := Some t\<rparr>)) else None)"
| "exec t (TakeBody pid) s =
     (case takeForks_locked pid (engine s) of
        None \<Rightarrow> None
      | Some e \<Rightarrow> Some (set_pc t (TakeUnlock pid) (s\<lparr>engine := e\<rparr>)))"
| "exec t (TakeUnlock pid) s = Some (set_pc t (TakeAcquire pid) (s\<lparr>mtx := None\<rparr>))"
| "exec t (TakeAcquire pid) s =
     (case at (sems (engine s)) pid of
        None \<Rightarrow> None
      | Some g \<Rightarrow>
          Some (set_pc t (case fst (acquire g) of Returned \<Rightarrow> Idle | Blocked \<Rightarrow> TakeSleep pid)
                  (s\<lparr>engine := (engine s)\<lparr>sems := (sems (engine s))[pid := snd (acquire g)]\<rparr>\<rparr>)))"
| "exec t (TakeSleep pid) s =
     (case at (sems (engine s)) pid of
        None \<Rightarrow> None
      | Some g \<Rightarrow>
          Some (set_pc t (case fst (acquire_wakeup g) of Returned \<Rightarrow> Idle | Blocked \<Rightarrow> TakeSleep pid)
                  (s\<lparr>engine := (engine s)\<lparr>sems := (sems (engine s))[pid := snd (acquire_wakeup g)]\<rparr>\<rparr>)))"
| "exec t (PutLock pid) s =
     (if mtx s = None then Some (set_pc t (PutBody pid) (s\<lparr>mtx := Some t\<rparr>)) else None)"
| "exec t (PutBody pid) s =
     (case putForks pid (engine s) of
        None \<Rightarrow> None
      | Some e \<Rightarrow> Some (set_pc t (PutUnlock pid) (s\<lparr>engine := e\<rparr>)))"
| "exec t (PutUnlock pid) s = Some (set_pc t Idle (s\<lparr>mtx := None\<rparr>))"
| "exec t GetLock s =
     (if mtx s = None then Some (set_pc t GetBody (s\<lparr>mtx := Some t\<rparr>)) else None)"
| "exec t GetBody s =
     Some (set_pc t (GetUnlock (fst (getStates (engine s))))
             (s\<lparr>engine := snd (getStates (engine s))\<rparr>))"
| "exec t (GetUnlock res) s = Some (set_pc t Idle (s\<lparr>mtx := None\<rparr>))"

text \<open>A thread that runs no member function may call one; a thread inside one goes on.\<close>

fun step :: "event \<Rightarrow> system \<Rightarrow> system option" where
  "step (Call t c) s = (if pcs s t = Idle then Some (set_pc t (entry c) s) else None)"
| "step (Step t) s = exec t (pcs s t) s"

fun run :: "event list \<Rightarrow> system \<Rightarrow> system option" where
  "run [] s = Some s"
| "run (ev # evs) s = (case step ev s of None \<Rightarrow> None | Some s' \<Rightarrow> run evs s')"

text \<open>The points at which a thread holds \<open>m_\<close>, and those inside \<open>acquire()\<close>.\<close>

fun critical :: "pc \<Rightarrow> bool" where
  "critical (TakeBody pid) = True"
| "critical (TakeUnlock pid) = True"
| "critical (PutBody pid) = True"
| "critical (PutUnlock pid) = True"
| "critical GetBody = True"
| "critical (GetUnlock res) = True"
| "critical p = False"

fun in_acquire :: "pc \<Rightarrow> bool" where
  "in_acquire (TakeAcquire pid) = True"
| "in_acquire (TakeSleep pid) = True"
| "in_acquire p = False"

subsection \<open>Properties of the state vector\<close>

text \<open>
  No actor eats next to an eating actor, in the two forms of the specification; the
  second is the one the test of the source checks on every snapshot.
\<close>

definition adjacency_exclusion :: "PhilosophersSync \<Rightarrow> bool" where
  "adjacency_exclusion e =
     (\<forall>i\<in>{0..<numPhils e}. states e ! i = EATING \<longrightarrow>
        states e ! ((i + numPhils e - 1) mod numPhils e) \<noteq> EATING
        \<and> states e ! ((i + 1) mod numPhils e) \<noteq> EATING)"

definition no_adjacent_pair :: "PhilosophersSync \<Rightarrow> bool" where
  "no_adjacent_pair e =
     (\<forall>i\<in>{0..<numPhils e}.
        \<not> (states e ! i = EATING \<and> states e ! ((i + 1) mod numPhils e) = EATING))"

subsection \<open>Invariants used in the proofs\<close>

text \<open>
  \<open>excl\<close> is the exclusion property on a bare state vector of \<open>n\<close> actors;
  \<open>lock_inv\<close> says that the holder of \<open>m_\<close> is the one thread inside a locked block;
  \<open>copy_inv\<close> says that a copy made by \<open>getStates\<close> and not yet returned is the
  current state vector.
\<close>

definition excl :: "nat \<Rightarrow> State list \<Rightarrow> bool" where
  "excl n xs = (\<forall>i<n. xs ! i = EATING \<longrightarrow>
      xs ! ((i + n - 1) mod n) \<noteq> EATING \<and> xs ! ((i + 1) mod n) \<noteq> EATING)"

definition einv :: "nat \<Rightarrow> PhilosophersSync \<Rightarrow> bool" where
  "einv n e = (wf e \<and> numPhils e = n \<and> excl n (states e))"

definition lock_inv :: "system \<Rightarrow> bool" where
  "lock_inv s = (\<forall>t. critical (pcs s t) = (mtx s = Some t))"

definition copy_inv :: "system \<Rightarrow> bool" where
  "copy_inv s = (\<forall>t res. pcs s t = GetUnlock res \<longrightarrow> res = states (engine s))"

definition sinv :: "nat \<Rightarrow> system \<Rightarrow> bool" where
  "sinv n s = (wf (engine s) \<and> numPhils (engine s) = n \<and> lock_inv s \<and> copy_inv s)"

section \<open>The semaphore\<close>

lemma make_sems_replicate: "make_sems n = replicate n \<lparr>sem_v = 0\<rparr>"
  by (induction n) (simp_all add: BinarySemaphore_new_def replicate_append_same)

text \<open>
  C4. Two \<open>release()\<close> calls in a row leave the value at 1, as one call does; the next
  \<open>acquire()\<close> returns at once and takes the value to 0; the \<open>acquire()\<close> after
  that one blocks.
\<close>

theorem release_idempotent_single_permit:
  "release (release g) = release g
   \<and> sem_v (release (release g)) = 1
   \<and> fst (acquire (release (release g))) = Returned
   \<and> sem_v (snd (acquire (release (release g)))) = 0
   \<and> fst (acquire (snd (acquire (release (release g))))) = Blocked"
  by (simp add: release_def acquire_def)

lemma sem_update_eq: "(g::BinarySemaphore)\<lparr>sem_v := x\<rparr> = \<lparr>sem_v = x\<rparr>"
  by (cases g) simp

text \<open>
  C3. \<open>acquire()\<close> is claimed to leave the value at 0 whenever it returns. The run
  below starts from a semaphore built with 0: the caller of \<open>acquire()\<close> goes to sleep,
  another thread calls \<open>release()\<close>, the sleeper wakes up and its call returns with the
  value still 1; the next \<open>acquire()\<close> then returns at once instead of blocking.
\<close>

theorem acquire_after_wakeup_keeps_permit:
  "acquire (BinarySemaphore_new 0) = (Blocked, \<lparr>sem_v = 0\<rparr>)
   \<and> acquire_wakeup (release \<lparr>sem_v = 0\<rparr>) = (Returned, \<lparr>sem_v = 1\<rparr>)
   \<and> acquire \<lparr>sem_v = 1\<rparr> = (Returned, \<lparr>sem_v = 0\<rparr>)"
  by (simp add: BinarySemaphore_new_def acquire_def acquire_wakeup_def release_def)

section \<open>Construction\<close>



section \<open>The promotion rule\<close>

text \<open>The left neighbour as the source computes it is the index \<open>(i - 1) mod n\<close>.\<close>

lemma left_int: "pid < n \<Longrightarrow> nat ((int pid - 1) mod int n) = (pid + n - 1) mod n"
proof (cases pid)
  case 0
  assume "pid < n"
  with 0 have "(int pid - 1) mod int n = int n - 1"
    by (simp add: zmod_minus1)
  with 0 \<open>pid < n\<close> show ?thesis by simp
next
  case (Suc k)
  assume "pid < n"
  with Suc show ?thesis by (simp add: nat_mod_distrib)
qed

text \<open>
  C2. For an actor index \<open>pid < n\<close>: when \<open>pid\<close> is \<open>HUNGRY\<close> and neither neighbour
  is \<open>EATING\<close>, \<open>tryToEat\<close> sets its state to \<open>EATING\<close> and calls \<open>release()\<close> on its
  semaphore once (one entry is added to the record of calls); in every other case the
  engine is returned as it was.
\<close>

theorem tryToEat_promotion_rule:
  assumes "wf e" and "pid < numPhils e"
  shows "tryToEat pid e =
     Some (if states e ! pid = HUNGRY
              \<and> states e ! nat ((int pid - 1) mod int (numPhils e)) \<noteq> EATING
              \<and> states e ! ((pid + 1) mod numPhils e) \<noteq> EATING
           then e\<lparr>states := (states e)[pid := EATING],
                  sems := (sems e)[pid := release (sems e ! pid)],
                  released := released e @ [pid]\<rparr>
           else e)"
  using assms by (simp add: tryToEat_def at_def wf_def left_int)

theorem tryToEat_promotion_rule_witness:
  "wf \<lparr>numPhils = 3, states = [THINKING, HUNGRY, THINKING],
       sems = [\<lparr>sem_v = 0\<rparr>, \<lparr>sem_v = 0\<rparr>, \<lparr>sem_v = 0\<rparr>], released = []\<rparr>
   \<and> tryToEat 1 \<lparr>numPhils = 3, states = [THINKING, HUNGRY, THINKING],
       sems = [\<lparr>sem_v = 0\<rparr>, \<lparr>sem_v = 0\<rparr>, \<lparr>sem_v = 0\<rparr>], released = []\<rparr>
     = Some \<lparr>numPhils = 3, states = [THINKING, EATING, THINKING],
       sems = [\<lparr>sem_v = 0\<rparr>, \<lparr>sem_v = 1\<rparr>, \<lparr>sem_v = 0\<rparr>], released = [1]\<rparr>"
  using tryToEat_promotion_rule [of "\<lparr>numPhils = 3, states = [THINKING, HUNGRY, THINKING],
       sems = [\<lparr>sem_v = 0\<rparr>, \<lparr>sem_v = 0\<rparr>, \<lparr>sem_v = 0\<rparr>], released = []\<rparr>" 1]
  by (simp add: wf_def release_def)

section \<open>takeForks that returns at once\<close>

text \<open>
  C7. With three actors, all \<open>THINKING\<close>, \<open>takeForks(0)\<close> promotes actor 0 inside
  the call and returns without blocking; the states are then
  \<open>[EATING, THINKING, THINKING]\<close>.
\<close>

theorem takeForks_immediate:
  assumes "wf e" and "numPhils e = 3" and "states e = [THINKING, THINKING, THINKING]"
  shows "takeForks 0 e =
     Some (Returned, e\<lparr>states := [EATING, THINKING, THINKING],
                       sems := (sems e)[0 := \<lparr>sem_v = 0\<rparr>],
                       released := released e @ [0]\<rparr>)"
  using assms
  by (simp add: takeForks_def takeForks_locked_def tryToEat_def at_def wf_def acquire_def
      release_def sem_update_eq)

theorem takeForks_immediate_witness:
  "PhilosophersSync_new 3 =
     Some \<lparr>numPhils = 3, states = [THINKING, THINKING, THINKING],
           sems = [\<lparr>sem_v = 0\<rparr>, \<lparr>sem_v = 0\<rparr>, \<lparr>sem_v = 0\<rparr>], released = []\<rparr>
   \<and> takeForks 0 \<lparr>numPhils = 3, states = [THINKING, THINKING, THINKING],
           sems = [\<lparr>sem_v = 0\<rparr>, \<lparr>sem_v = 0\<rparr>, \<lparr>sem_v = 0\<rparr>], released = []\<rparr>
     = Some (Returned, \<lparr>numPhils = 3, states = [EATING, THINKING, THINKING],
           sems = [\<lparr>sem_v = 0\<rparr>, \<lparr>sem_v = 0\<rparr>, \<lparr>sem_v = 0\<rparr>], released = [0]\<rparr>)"
  using takeForks_immediate [of "\<lparr>numPhils = 3, states = [THINKING, THINKING, THINKING],
           sems = [\<lparr>sem_v = 0\<rparr>, \<lparr>sem_v = 0\<rparr>, \<lparr>sem_v = 0\<rparr>], released = []\<rparr>"]
  by (simp add: wf_def PhilosophersSync_new_def BinarySemaphore_new_def numeral_3_eq_3)

text \<open>
  C10. With one actor, both neighbour indices of actor 0 are 0, and \<open>takeForks(0)\<close>
  from \<open>THINKING\<close> promotes actor 0 inside the call and returns without blocking.
\<close>

theorem takeForks_single_actor:
  assumes "wf e" and "numPhils e = 1" and "states e ! 0 = THINKING"
  shows "(0 + numPhils e - 1) mod numPhils e = 0 \<and> (0 + 1) mod numPhils e = 0
     \<and> takeForks 0 e =
       Some (Returned, e\<lparr>states := [EATING], sems := [\<lparr>sem_v = 0\<rparr>],
                         released := released e @ [0]\<rparr>)"
proof -
  from assms obtain s where s: "states e = [s]"
    by (cases "states e") (auto simp: wf_def)
  from assms obtain g where g: "sems e = [g]"
    by (cases "sems e") (auto simp: wf_def)
  show ?thesis using assms s g
    by (simp add: takeForks_def takeForks_locked_def tryToEat_def at_def acquire_def
        release_def sem_update_eq)
qed

theorem takeForks_single_actor_witness:
  "PhilosophersSync_new 1 =
     Some \<lparr>numPhils = 1, states = [THINKING], sems = [\<lparr>sem_v = 0\<rparr>], released = []\<rparr>
   \<and> takeForks 0 \<lparr>numPhils = 1, states = [THINKING], sems = [\<lparr>sem_v = 0\<rparr>], released = []\<rparr>
     = Some (Returned,
         \<lparr>numPhils = 1, states = [EATING], sems = [\<lparr>sem_v = 0\<rparr>], released = [0]\<rparr>)"
  using takeForks_single_actor [of "\<lparr>numPhils = 1, states = [THINKING],
           sems = [\<lparr>sem_v = 0\<rparr>], released = []\<rparr>"]
  by (simp add: wf_def PhilosophersSync_new_def BinarySemaphore_new_def)

section \<open>The ring of actors\<close>

lemma succ_mod: "i < n \<Longrightarrow> (i + 1) mod n = (if i + 1 = n then 0 else i + 1)" for i n :: nat
  by (auto simp: mod_Suc)

lemma pred_mod: "i < n \<Longrightarrow> (i + n - 1) mod n = (if i = 0 then n - 1 else i - 1)" for i n :: nat
  by (cases i) simp_all

lemma ring_lt: "0 < n \<Longrightarrow> (i + 1) mod n < n" "0 < n \<Longrightarrow> (i + n - 1) mod n < n" for i n :: nat
  by simp_all

lemma ring_right_left: "i < n \<Longrightarrow> ((i + 1) mod n + n - 1) mod n = i" for i n :: nat
proof (cases "i + 1 = n")
  case True
  assume "i < n"
  with True show ?thesis by (simp only: succ_mod pred_mod) auto
next
  case False
  assume "i < n"
  with False have "i + 1 < n" by simp
  with False \<open>i < n\<close> show ?thesis by (simp only: succ_mod pred_mod) auto
qed

lemma ring_left_right: "i < n \<Longrightarrow> ((i + n - 1) mod n + 1) mod n = i" for i n :: nat
proof (cases "i = 0")
  case True
  assume "i < n"
  then have "n - 1 < n" by simp
  with True \<open>i < n\<close> show ?thesis by (simp only: pred_mod succ_mod) auto
next
  case False
  assume "i < n"
  then have "i - 1 < n" by simp
  with False \<open>i < n\<close> show ?thesis by (simp only: pred_mod succ_mod) auto
qed

lemma ring_right_neq: "2 \<le> n \<Longrightarrow> i < n \<Longrightarrow> (i + 1) mod n \<noteq> i" for i n :: nat
  by (simp only: succ_mod) auto

lemma ring_left_neq: "2 \<le> n \<Longrightarrow> i < n \<Longrightarrow> (i + n - 1) mod n \<noteq> i" for i n :: nat
  by (simp only: pred_mod) auto

lemma ring_left_eq_right:
  "2 \<le> n \<Longrightarrow> i < n \<Longrightarrow> ((i + n - 1) mod n = (i + 1) mod n) = (n = 2)" for i n :: nat
  by (simp only: pred_mod succ_mod) auto

lemma ring_left_left:
  "2 \<le> n \<Longrightarrow> i < n \<Longrightarrow> (((i + n - 1) mod n + n - 1) mod n = (i + 1) mod n) = (n = 3)"
  for i n :: nat
proof -
  assume a: "2 \<le> n" "i < n"
  define l where "l = (i + n - 1) mod n"
  have l: "l = (if i = 0 then n - 1 else i - 1)" unfolding l_def using a by (rule_tac pred_mod)
  have "l < n" using a by (simp add: l_def)
  then have ll: "(l + n - 1) mod n = (if l = 0 then n - 1 else l - 1)" by (rule pred_mod)
  have r: "(i + 1) mod n = (if i + 1 = n then 0 else i + 1)" using a by (rule_tac succ_mod)
  have "((l + n - 1) mod n = (i + 1) mod n) = (n = 3)"
    unfolding ll r using a l by (auto split: if_splits)
  then show ?thesis by (simp only: l_def)
qed



section \<open>putForks\<close>

lemma tryToEat_eq:
  assumes "wf e" and "pid < numPhils e"
  shows "tryToEat pid e =
     Some (if states e ! pid = HUNGRY
              \<and> states e ! ((pid + numPhils e - 1) mod numPhils e) \<noteq> EATING
              \<and> states e ! ((pid + 1) mod numPhils e) \<noteq> EATING
           then e\<lparr>states := (states e)[pid := EATING],
                  sems := (sems e)[pid := release (sems e ! pid)],
                  released := released e @ [pid]\<rparr>
           else e)"
  using assms by (simp add: tryToEat_def at_def wf_def)

lemma tryToEat_states:
  assumes "wf e" and "pid < numPhils e"
  shows "\<exists>e'. tryToEat pid e = Some e' \<and> wf e' \<and> numPhils e' = numPhils e
     \<and> states e' =
        (if states e ! pid = HUNGRY
              \<and> states e ! ((pid + numPhils e - 1) mod numPhils e) \<noteq> EATING
              \<and> states e ! ((pid + 1) mod numPhils e) \<noteq> EATING
         then (states e)[pid := EATING] else states e)"
  using assms by (simp add: tryToEat_eq) (simp add: wf_def)


text \<open>
  C6. \<open>putForks(pid)\<close> on an eating actor \<open>pid < n\<close> sets its state to \<open>THINKING\<close>,
  then runs \<open>tryToEat\<close> for the neighbour \<open>(pid + 1) mod n\<close> and then, on the result,
  for the neighbour \<open>(pid + n - 1) mod n\<close>; the actor is \<open>THINKING\<close> afterwards. When
  both neighbours are \<open>HUNGRY\<close> and nothing but \<open>pid\<close> keeps them from eating, the
  neighbour \<open>(pid + 1) mod n\<close> always eats afterwards; the other one eats as well unless
  the two are adjacent (\<open>n = 3\<close>), in which case it stays \<open>HUNGRY\<close>.
\<close>

theorem putForks_order_and_tie_break:
  assumes "wf e" and "pid < numPhils e" and "states e ! pid = EATING"
    and "n = numPhils e" and "r = (pid + 1) mod n" and "l = (pid + n - 1) mod n"
    and "e1 = e\<lparr>states := (states e)[pid := THINKING]\<rparr>"
  shows "\<exists>e2 e3. tryToEat r e1 = Some e2 \<and> tryToEat l e2 = Some e3
      \<and> putForks pid e = Some e3
      \<and> states e3 ! pid = THINKING
      \<and> (states e1 ! r = HUNGRY \<and> states e1 ! ((r + 1) mod n) \<noteq> EATING
         \<and> states e1 ! l = HUNGRY \<and> states e1 ! ((l + n - 1) mod n) \<noteq> EATING
         \<longrightarrow> states e3 ! r = EATING
             \<and> states e3 ! l = (if n = 3 then HUNGRY else EATING))"
proof -
  have n: "pid < n" "0 < n" using assms by auto
  have r: "r < n" and l: "l < n" using assms n by auto
  define xs where "xs = (states e)[pid := THINKING]"
  have len: "length xs = n" using assms by (simp add: xs_def wf_def)
  have xs_pid: "xs ! pid = THINKING" using n len by (simp add: xs_def)
  have wf1: "wf e1" "numPhils e1 = n" "states e1 = xs"
    using assms by (auto simp: wf_def xs_def)
  define Pr where "Pr = (xs ! r = HUNGRY \<and> xs ! ((r + n - 1) mod n) \<noteq> EATING
              \<and> xs ! ((r + 1) mod n) \<noteq> EATING)"
  obtain e2 where e2: "tryToEat r e1 = Some e2" "wf e2" "numPhils e2 = n"
      "states e2 = (if Pr then xs[r := EATING] else xs)"
    using tryToEat_states [of e1 r] wf1 r unfolding Pr_def by auto
  define ys where "ys = states e2"
  define Pl where "Pl = (ys ! l = HUNGRY \<and> ys ! ((l + n - 1) mod n) \<noteq> EATING
              \<and> ys ! ((l + 1) mod n) \<noteq> EATING)"
  obtain e3 where e3: "tryToEat l e2 = Some e3"
      "states e3 = (if Pl then ys[l := EATING] else ys)"
    using tryToEat_states [of e2 l] e2 l unfolding Pl_def ys_def by auto
  have put: "putForks pid e = Some e3"
    using assms e2 e3 n by (simp add: putForks_def wf_def)
  have pidT: "states e3 ! pid = THINKING"
  proof (cases "2 \<le> n")
    case True
    then have "r \<noteq> pid" "l \<noteq> pid"
      using ring_right_neq [of n pid] ring_left_neq [of n pid] n assms(5,6) by auto
    then show ?thesis using e3(2) e2(4) xs_pid by (simp add: ys_def)
  next
    case False
    then have "n = 1" using n by simp
    then have "r = pid" "l = pid" using n assms(5,6) by auto
    then have "\<not> Pr" using xs_pid by (simp add: Pr_def)
    then have "ys = xs" using e2(4) by (simp add: ys_def)
    then have "\<not> Pl" using xs_pid \<open>l = pid\<close> by (simp add: Pl_def)
    then show ?thesis using e3(2) \<open>ys = xs\<close> xs_pid by simp
  qed
  have fav: "states e3 ! r = EATING \<and> states e3 ! l = (if n = 3 then HUNGRY else EATING)"
    if h: "xs ! r = HUNGRY" "xs ! ((r + 1) mod n) \<noteq> EATING"
       "xs ! l = HUNGRY" "xs ! ((l + n - 1) mod n) \<noteq> EATING"
  proof -
    have "r \<noteq> pid" using h(1) xs_pid by auto
    then have n2: "2 \<le> n" using n r by (cases "n = 1") auto
    have "l \<noteq> pid" using h(3) xs_pid by auto
    have rl: "(r + n - 1) mod n = pid" using ring_right_left [of pid n] n assms(5) by simp
    have lr: "(l + 1) mod n = pid" using ring_left_right [of pid n] n assms(6) by simp
    have "Pr" using h(1,2) rl xs_pid by (simp add: Pr_def)
    then have ys: "ys = xs[r := EATING]" using e2(4) by (simp add: ys_def)
    show ?thesis
    proof (cases "l = r")
      case True
      then have "n = 2" using ring_left_eq_right [of n pid] n2 n assms(5,6) by simp
      have "\<not> Pl" using True ys r len by (simp add: Pl_def)
      then show ?thesis using e3(2) ys True r len \<open>n = 2\<close> by simp
    next
      case False
      then have "n \<noteq> 2" using ring_left_eq_right [of n pid] n2 n assms(5,6) by simp
      have yl: "ys ! l = HUNGRY" using ys False h(3) by simp
      have yp: "ys ! ((l + 1) mod n) \<noteq> EATING" using lr ys \<open>r \<noteq> pid\<close> xs_pid by simp
      show ?thesis
      proof (cases "(l + n - 1) mod n = r")
        case True
        then have "n = 3" using ring_left_left [of n pid] n2 n assms(5,6) by simp
        have "\<not> Pl" using True ys r len by (simp add: Pl_def)
        then show ?thesis using e3(2) ys yl r len \<open>n = 3\<close> by simp
      next
        case ne: False
        then have "n \<noteq> 3" using ring_left_left [of n pid] n2 n assms(5,6) by simp
        have "ys ! ((l + n - 1) mod n) \<noteq> EATING" using ys ne h(4) by simp
        then have "Pl" using yl yp by (simp add: Pl_def)
        then show ?thesis using e3(2) ys False r l len \<open>n \<noteq> 3\<close> by simp
      qed
    qed
  qed
  show ?thesis using e2(1) e3(1) put pidT fav wf1(3) by blast
qed

theorem putForks_order_and_tie_break_witness:
  "wf \<lparr>numPhils = 3, states = [EATING, HUNGRY, HUNGRY],
       sems = [\<lparr>sem_v = 0\<rparr>, \<lparr>sem_v = 0\<rparr>, \<lparr>sem_v = 0\<rparr>], released = []\<rparr>
   \<and> putForks 0 \<lparr>numPhils = 3, states = [EATING, HUNGRY, HUNGRY],
       sems = [\<lparr>sem_v = 0\<rparr>, \<lparr>sem_v = 0\<rparr>, \<lparr>sem_v = 0\<rparr>], released = []\<rparr>
     = Some \<lparr>numPhils = 3, states = [THINKING, EATING, HUNGRY],
       sems = [\<lparr>sem_v = 0\<rparr>, \<lparr>sem_v = 1\<rparr>, \<lparr>sem_v = 0\<rparr>], released = [1]\<rparr>"
proof -
  let ?e = "\<lparr>numPhils = 3, states = [EATING, HUNGRY, HUNGRY],
       sems = [\<lparr>sem_v = 0\<rparr>, \<lparr>sem_v = 0\<rparr>, \<lparr>sem_v = 0\<rparr>], released = []\<rparr>"
  let ?e1 = "\<lparr>numPhils = 3, states = [THINKING, HUNGRY, HUNGRY],
       sems = [\<lparr>sem_v = 0\<rparr>, \<lparr>sem_v = 0\<rparr>, \<lparr>sem_v = 0\<rparr>], released = []\<rparr>"
  have h1: "wf ?e" by (simp add: wf_def)
  have h2: "0 < numPhils ?e" by simp
  have h3: "states ?e ! 0 = EATING" by simp
  have h4: "3 = numPhils ?e" by simp
  have h5: "(1::nat) = (0 + 1) mod 3" by simp
  have h6: "(2::nat) = (0 + 3 - 1) mod 3" by simp
  have h7: "?e1 = ?e\<lparr>states := (states ?e)[0 := THINKING]\<rparr>" by simp
  have el: "states ?e1 ! 1 = HUNGRY \<and> states ?e1 ! ((1 + 1) mod 3) \<noteq> EATING
         \<and> states ?e1 ! 2 = HUNGRY \<and> states ?e1 ! ((2 + 3 - 1) mod 3) \<noteq> EATING"
    by simp
  from putForks_order_and_tie_break [OF h1 h2 h3 h4 h5 h6 h7] el
  obtain e3 where e3: "putForks 0 ?e = Some e3" "states e3 ! 0 = THINKING"
      "states e3 ! 1 = EATING" "states e3 ! 2 = HUNGRY"
    by auto
  have ev: "putForks 0 ?e = Some \<lparr>numPhils = 3, states = [THINKING, EATING, HUNGRY],
       sems = [\<lparr>sem_v = 0\<rparr>, \<lparr>sem_v = 1\<rparr>, \<lparr>sem_v = 0\<rparr>], released = [1]\<rparr>"
    by (simp add: putForks_def tryToEat_def at_def release_def)
  show ?thesis using h1 ev e3 by simp
qed

section \<open>Adjacent actors never eat together\<close>

lemma adjacency_exclusion_excl: "adjacency_exclusion e = excl (numPhils e) (states e)"
  by (auto simp: adjacency_exclusion_def excl_def)

lemma excl_update_other:
  assumes "length xs = n" and "excl n xs" and "s \<noteq> EATING"
  shows "excl n (xs[p := s])"
  unfolding excl_def
proof (intro allI impI)
  fix i assume i: "i < n" and e: "xs[p := s] ! i = EATING"
  have "0 < n" using i by simp
  then have lt: "(i + n - 1) mod n < n" "(i + 1) mod n < n" by simp_all
  have "i \<noteq> p" using e i assms by auto
  then have "xs ! i = EATING" using e by simp
  then have "xs ! ((i + n - 1) mod n) \<noteq> EATING" "xs ! ((i + 1) mod n) \<noteq> EATING"
    using assms(2) i by (auto simp: excl_def)
  then show "xs[p := s] ! ((i + n - 1) mod n) \<noteq> EATING \<and> xs[p := s] ! ((i + 1) mod n) \<noteq> EATING"
    using lt assms(1,3) by (cases "p < n") (simp_all add: nth_list_update list_update_beyond)
qed

lemma excl_update_eating:
  assumes "length xs = n" and "2 \<le> n" and "p < n" and "excl n xs"
    and "xs ! ((p + n - 1) mod n) \<noteq> EATING" and "xs ! ((p + 1) mod n) \<noteq> EATING"
  shows "excl n (xs[p := EATING])"
  unfolding excl_def
proof (intro allI impI)
  fix i assume i: "i < n" and e: "xs[p := EATING] ! i = EATING"
  have lt: "(i + n - 1) mod n < n" "(i + 1) mod n < n" using i by simp_all
  show "xs[p := EATING] ! ((i + n - 1) mod n) \<noteq> EATING \<and> xs[p := EATING] ! ((i + 1) mod n) \<noteq> EATING"
  proof (cases "i = p")
    case True
    then have "(i + n - 1) mod n \<noteq> p" "(i + 1) mod n \<noteq> p"
      using ring_left_neq [of n p] ring_right_neq [of n p] assms(2,3) by auto
    then show ?thesis using assms(5,6) True by simp
  next
    case False
    then have xi: "xs ! i = EATING" using e by simp
    then have nb: "xs ! ((i + n - 1) mod n) \<noteq> EATING" "xs ! ((i + 1) mod n) \<noteq> EATING"
      using assms(4) i by (auto simp: excl_def)
    have "(i + n - 1) mod n \<noteq> p"
    proof
      assume "(i + n - 1) mod n = p"
      then have "(p + 1) mod n = i" using ring_left_right [of i n] i by simp
      then show False using xi assms(6) by simp
    qed
    moreover have "(i + 1) mod n \<noteq> p"
    proof
      assume "(i + 1) mod n = p"
      then have "(p + n - 1) mod n = i" using ring_right_left [of i n] i by simp
      then show False using xi assms(5) by simp
    qed
    ultimately show ?thesis using nb by simp
  qed
qed

lemma tryToEat_einv:
  assumes "einv n e" and "n \<noteq> 1" and "tryToEat pid e = Some e'"
  shows "einv n e'"
proof (cases "pid < n")
  case True
  then have n2: "2 \<le> n" using assms(2) by simp
  have wf: "wf e" "numPhils e = n" "length (states e) = n" "excl n (states e)"
    using assms(1) by (auto simp: einv_def wf_def)
  have e': "e' = (if states e ! pid = HUNGRY
              \<and> states e ! ((pid + n - 1) mod n) \<noteq> EATING
              \<and> states e ! ((pid + 1) mod n) \<noteq> EATING
           then e\<lparr>states := (states e)[pid := EATING],
                  sems := (sems e)[pid := release (sems e ! pid)],
                  released := released e @ [pid]\<rparr>
           else e)"
    using tryToEat_eq [of e pid] wf True assms(3) by simp
  show ?thesis
  proof (cases "states e ! pid = HUNGRY
              \<and> states e ! ((pid + n - 1) mod n) \<noteq> EATING
              \<and> states e ! ((pid + 1) mod n) \<noteq> EATING")
    case c: True
    then have "excl n ((states e)[pid := EATING])"
      using excl_update_eating [of "states e" n pid] wf n2 True by simp
    then show ?thesis using c e' wf by (simp add: einv_def wf_def)
  next
    case False
    then have "e' = e" using e' by auto
    then show ?thesis using assms(1) by simp
  qed
next
  case False
  then have "tryToEat pid e = None" using assms(1) by (simp add: tryToEat_def at_def einv_def wf_def)
  then show ?thesis using assms(3) by simp
qed

lemma set_state_einv:
  assumes "einv n e" and "s \<noteq> EATING"
  shows "einv n (e\<lparr>states := (states e)[p := s]\<rparr>)"
  using assms excl_update_other [of "states e" n s p] by (simp add: einv_def wf_def)

lemma takeForks_locked_einv:
  assumes "einv n e" and "n \<noteq> 1" and "takeForks_locked pid e = Some e'"
  shows "einv n e'"
proof -
  have "tryToEat pid (e\<lparr>states := (states e)[pid := HUNGRY]\<rparr>) = Some e'"
    using assms(3) by (simp add: takeForks_locked_def split: if_splits)
  then show ?thesis using tryToEat_einv set_state_einv [OF assms(1), of HUNGRY pid] assms(2) by blast
qed

lemma putForks_einv:
  assumes "einv n e" and "n \<noteq> 1" and "putForks pid e = Some e'"
  shows "einv n e'"
proof -
  let ?e0 = "e\<lparr>states := (states e)[pid := THINKING]\<rparr>"
  have n: "numPhils e = n" using assms(1) by (simp add: einv_def)
  obtain e1 where e1: "tryToEat ((pid + 1) mod n) ?e0 = Some e1"
      "tryToEat ((pid + n - 1) mod n) e1 = Some e'"
    using assms(3) n by (auto simp: putForks_def split: if_splits option.splits)
  have "einv n ?e0" using set_state_einv [OF assms(1), of THINKING pid] by simp
  then have "einv n e1" using tryToEat_einv e1(1) assms(2) by blast
  then show ?thesis using tryToEat_einv e1(2) assms(2) by blast
qed

lemma set_sems_einv:
  "einv n e \<Longrightarrow> einv n (e\<lparr>sems := (sems e)[p := g]\<rparr>)"
  by (simp add: einv_def wf_def)


lemma tryToEat_wf: "wf e \<Longrightarrow> tryToEat pid e = Some e' \<Longrightarrow> wf e' \<and> numPhils e' = numPhils e"
  by (auto simp: tryToEat_def at_def wf_def split: option.splits if_splits)

lemma takeForks_locked_wf:
  "wf e \<Longrightarrow> takeForks_locked pid e = Some e' \<Longrightarrow> wf e' \<and> numPhils e' = numPhils e"
  using tryToEat_wf [of "e\<lparr>states := (states e)[pid := HUNGRY]\<rparr>" pid e']
  by (simp add: takeForks_locked_def wf_def split: if_splits)

lemma putForks_wf:
  assumes "wf e" and "putForks pid e = Some e'"
  shows "wf e' \<and> numPhils e' = numPhils e"
proof -
  let ?e0 = "e\<lparr>states := (states e)[pid := THINKING]\<rparr>"
  obtain e1 where e1: "tryToEat ((pid + 1) mod numPhils e) ?e0 = Some e1"
      "tryToEat ((pid + numPhils e - 1) mod numPhils e) e1 = Some e'"
    using assms(2) by (auto simp: putForks_def split: if_splits option.splits)
  have "wf ?e0" using assms(1) by (simp add: wf_def)
  then have "wf e1 \<and> numPhils e1 = numPhils ?e0" using e1(1) by (rule tryToEat_wf)
  then show ?thesis using tryToEat_wf [of e1 _ e'] e1(2) by simp
qed

lemma set_pc_simps [simp]:
  "engine (set_pc t p s) = engine s" "mtx (set_pc t p s) = mtx s"
  "pcs (set_pc t p s) = (pcs s)(t := p)"
  by (simp_all add: set_pc_def)

lemma exec_engine:
  assumes "exec t p s = Some s'"
  shows "engine s' = engine s
    \<or> (\<exists>pid. takeForks_locked pid (engine s) = Some (engine s'))
    \<or> (\<exists>pid. putForks pid (engine s) = Some (engine s'))
    \<or> (\<exists>i g. engine s' = (engine s)\<lparr>sems := (sems (engine s))[i := g]\<rparr>)"
proof (cases p)
  case Idle
  then show ?thesis using assms by simp
next
  case (TakeLock pid)
  then have "engine s' = engine s" using assms by (auto split: if_splits)
  then show ?thesis by simp
next
  case (TakeBody pid)
  then have "takeForks_locked pid (engine s) = Some (engine s')"
    using assms by (auto split: option.splits)
  then show ?thesis by blast
next
  case (TakeUnlock pid)
  then have "engine s' = engine s" using assms by auto
  then show ?thesis by simp
next
  case (TakeAcquire pid)
  then have "engine s' = (engine s)\<lparr>sems := (sems (engine s))[pid := snd (acquire (sems (engine s) ! pid))]\<rparr>"
    using assms by (auto simp: at_def split: option.splits if_splits)
  then show ?thesis by blast
next
  case (TakeSleep pid)
  then have "engine s' = (engine s)\<lparr>sems := (sems (engine s))[pid := snd (acquire_wakeup (sems (engine s) ! pid))]\<rparr>"
    using assms by (auto simp: at_def split: option.splits if_splits)
  then show ?thesis by blast
next
  case (PutLock pid)
  then have "engine s' = engine s" using assms by (auto split: if_splits)
  then show ?thesis by simp
next
  case (PutBody pid)
  then have "putForks pid (engine s) = Some (engine s')"
    using assms by (auto split: option.splits)
  then show ?thesis by blast
next
  case (PutUnlock pid)
  then have "engine s' = engine s" using assms by auto
  then show ?thesis by simp
next
  case GetLock
  then have "engine s' = engine s" using assms by (auto split: if_splits)
  then show ?thesis by simp
next
  case GetBody
  then have "engine s' = engine s" using assms by (auto simp: getStates_def)
  then show ?thesis by simp
next
  case (GetUnlock res)
  then have "engine s' = engine s" using assms by auto
  then show ?thesis by simp
qed

lemma step_engine:
  assumes "step ev s = Some s'"
  shows "engine s' = engine s
    \<or> (\<exists>pid. takeForks_locked pid (engine s) = Some (engine s'))
    \<or> (\<exists>pid. putForks pid (engine s) = Some (engine s'))
    \<or> (\<exists>i g. engine s' = (engine s)\<lparr>sems := (sems (engine s))[i := g]\<rparr>)"
proof (cases ev)
  case (Call t c)
  then have "engine s' = engine s" using assms by (auto split: if_splits)
  then show ?thesis by simp
next
  case (Step t)
  then have "exec t (pcs s t) s = Some s'" using assms by simp
  then show ?thesis by (rule exec_engine)
qed

lemma step_wf:
  assumes "wf (engine s)" and "step ev s = Some s'"
  shows "wf (engine s') \<and> numPhils (engine s') = numPhils (engine s)"
proof -
  consider "engine s' = engine s"
    | pid where "takeForks_locked pid (engine s) = Some (engine s')"
    | pid where "putForks pid (engine s) = Some (engine s')"
    | i g where "engine s' = (engine s)\<lparr>sems := (sems (engine s))[i := g]\<rparr>"
    using step_engine [OF assms(2)] by blast
  then show ?thesis
  proof cases
    case 1
    then show ?thesis using assms(1) by simp
  next
    case 2
    then show ?thesis using takeForks_locked_wf assms(1) by blast
  next
    case 3
    then show ?thesis using putForks_wf assms(1) by blast
  next
    case 4
    then show ?thesis using assms(1) by (simp add: wf_def)
  qed
qed

lemma step_einv:
  assumes "einv n (engine s)" and "n \<noteq> 1" and "step ev s = Some s'"
  shows "einv n (engine s')"
proof -
  consider "engine s' = engine s"
    | pid where "takeForks_locked pid (engine s) = Some (engine s')"
    | pid where "putForks pid (engine s) = Some (engine s')"
    | i g where "engine s' = (engine s)\<lparr>sems := (sems (engine s))[i := g]\<rparr>"
    using step_engine [OF assms(3)] by blast
  then show ?thesis
  proof cases
    case 1
    then show ?thesis using assms(1) by simp
  next
    case 2
    then show ?thesis using takeForks_locked_einv assms(1,2) by blast
  next
    case 3
    then show ?thesis using putForks_einv assms(1,2) by blast
  next
    case 4
    then show ?thesis using set_sems_einv [OF assms(1)] by simp
  qed
qed

lemma run_einv:
  "einv n (engine s) \<Longrightarrow> n \<noteq> 1 \<Longrightarrow> run evs s = Some s' \<Longrightarrow> einv n (engine s')"
proof (induction evs arbitrary: s)
  case Nil
  then show ?case by simp
next
  case (Cons ev evs)
  then obtain s1 where s1: "step ev s = Some s1" "run evs s1 = Some s'"
    by (auto split: option.splits)
  then show ?case using Cons step_einv by blast
qed

lemma new_einv: "PhilosophersSync_new n = Some e \<Longrightarrow> einv n e"
  by (auto simp: PhilosophersSync_new_def einv_def wf_def excl_def make_sems_replicate)


text \<open>
  C1, as claimed: in every reachable state of every engine no actor eats next to an eating
  actor. With one actor this fails: the actor is its own neighbour on both sides, and
  after \<open>takeForks(0)\<close> it is \<open>EATING\<close>.
\<close>

theorem adjacency_exclusion_single_actor_counterexample:
  "run [Call 0 (TakeForks 0), Step 0, Step 0] (system_init (the (PhilosophersSync_new 1))) \<noteq> None
   \<and> states (engine (the (run [Call 0 (TakeForks 0), Step 0, Step 0]
        (system_init (the (PhilosophersSync_new 1)))))) = [EATING]
   \<and> \<not> adjacency_exclusion (engine (the (run [Call 0 (TakeForks 0), Step 0, Step 0]
        (system_init (the (PhilosophersSync_new 1))))))
   \<and> \<not> no_adjacent_pair (engine (the (run [Call 0 (TakeForks 0), Step 0, Step 0]
        (system_init (the (PhilosophersSync_new 1))))))"
  by (simp add: PhilosophersSync_new_def system_init_def set_pc_def takeForks_locked_def
      tryToEat_def at_def release_def BinarySemaphore_new_def adjacency_exclusion_def
      no_adjacent_pair_def)

text \<open>
  C1, amended: for an engine built with \<open>n \<noteq> 1\<close>, in every state reached by any
  interleaving of calls of \<open>takeForks\<close>, \<open>putForks\<close> and \<open>getStates\<close> by any
  number of threads, no \<open>EATING\<close> actor has an \<open>EATING\<close> neighbour, in both forms of the
  property.
\<close>

theorem adjacency_exclusion_reachable:
  assumes "n \<noteq> 1" and "PhilosophersSync_new n = Some e0"
    and "run sched (system_init e0) = Some s"
  shows "adjacency_exclusion (engine s) \<and> no_adjacent_pair (engine s)"
proof -
  have "einv n (engine (system_init e0))" using new_einv [OF assms(2)] by (simp add: system_init_def)
  then have "einv n (engine s)" using run_einv assms(1,3) by blast
  then show ?thesis
    by (auto simp: einv_def adjacency_exclusion_def no_adjacent_pair_def excl_def)
qed



theorem adjacency_exclusion_reachable_witness:
  "PhilosophersSync_new 3 = Some \<lparr>numPhils = 3, states = [THINKING, THINKING, THINKING],
      sems = [\<lparr>sem_v = 0\<rparr>, \<lparr>sem_v = 0\<rparr>, \<lparr>sem_v = 0\<rparr>], released = []\<rparr>
   \<and> run [Call 0 (TakeForks 0), Step 0, Step 0, Step 0, Step 0,
      Call 1 (TakeForks 1), Step 1, Step 1, Step 1, Step 1] (system_init \<lparr>numPhils = 3, states = [THINKING, THINKING, THINKING],
      sems = [\<lparr>sem_v = 0\<rparr>, \<lparr>sem_v = 0\<rparr>, \<lparr>sem_v = 0\<rparr>], released = []\<rparr>) \<noteq> None
   \<and> states (engine (the (run [Call 0 (TakeForks 0), Step 0, Step 0, Step 0, Step 0,
      Call 1 (TakeForks 1), Step 1, Step 1, Step 1, Step 1] (system_init \<lparr>numPhils = 3, states = [THINKING, THINKING, THINKING],
      sems = [\<lparr>sem_v = 0\<rparr>, \<lparr>sem_v = 0\<rparr>, \<lparr>sem_v = 0\<rparr>], released = []\<rparr>)))) = [EATING, HUNGRY, THINKING]
   \<and> adjacency_exclusion (engine (the (run [Call 0 (TakeForks 0), Step 0, Step 0, Step 0, Step 0,
      Call 1 (TakeForks 1), Step 1, Step 1, Step 1, Step 1] (system_init \<lparr>numPhils = 3, states = [THINKING, THINKING, THINKING],
      sems = [\<lparr>sem_v = 0\<rparr>, \<lparr>sem_v = 0\<rparr>, \<lparr>sem_v = 0\<rparr>], released = []\<rparr>))))
   \<and> no_adjacent_pair (engine (the (run [Call 0 (TakeForks 0), Step 0, Step 0, Step 0, Step 0,
      Call 1 (TakeForks 1), Step 1, Step 1, Step 1, Step 1] (system_init \<lparr>numPhils = 3, states = [THINKING, THINKING, THINKING],
      sems = [\<lparr>sem_v = 0\<rparr>, \<lparr>sem_v = 0\<rparr>, \<lparr>sem_v = 0\<rparr>], released = []\<rparr>))))"
proof -
  let ?e0 = "\<lparr>numPhils = 3, states = [THINKING, THINKING, THINKING],
      sems = [\<lparr>sem_v = 0\<rparr>, \<lparr>sem_v = 0\<rparr>, \<lparr>sem_v = 0\<rparr>], released = []\<rparr>"
  let ?s = "the (run [Call 0 (TakeForks 0), Step 0, Step 0, Step 0, Step 0,
      Call 1 (TakeForks 1), Step 1, Step 1, Step 1, Step 1] (system_init ?e0))"
  have new: "PhilosophersSync_new 3 = Some ?e0"
    by (simp add: PhilosophersSync_new_def BinarySemaphore_new_def numeral_3_eq_3)
  have ne: "run [Call 0 (TakeForks 0), Step 0, Step 0, Step 0, Step 0,
      Call 1 (TakeForks 1), Step 1, Step 1, Step 1, Step 1] (system_init ?e0) \<noteq> None"
    by (simp add: system_init_def set_pc_def takeForks_locked_def tryToEat_def at_def release_def
      acquire_def getStates_def sem_update_eq)
  then have r: "run [Call 0 (TakeForks 0), Step 0, Step 0, Step 0, Step 0,
      Call 1 (TakeForks 1), Step 1, Step 1, Step 1, Step 1] (system_init ?e0) = Some ?s"
    by simp
  have st: "states (engine ?s) = [EATING, HUNGRY, THINKING]"
    by (simp add: system_init_def set_pc_def takeForks_locked_def tryToEat_def at_def release_def
      acquire_def getStates_def sem_update_eq)
  have "(3::nat) \<noteq> 1" by simp
  from adjacency_exclusion_reachable [OF this new r] new ne st show ?thesis by simp
qed

section \<open>The lock is not held across the wait\<close>

lemma critical_entry [simp]: "\<not> critical (entry c)"
  by (cases c) simp_all

lemma exec_lock_inv:
  assumes "lock_inv s" and "exec t (pcs s t) s = Some s'"
  shows "lock_inv s'"
proof -
  have L: "\<And>u. critical (pcs s u) = (mtx s = Some u)" using assms(1) by (simp add: lock_inv_def)
  show ?thesis
  proof (cases "pcs s t")
    case Idle
    then show ?thesis using assms(2) by simp
  next
    case (TakeLock pid)
    then have f: "mtx s = None" "s' = set_pc t (TakeBody pid) (s\<lparr>mtx := Some t\<rparr>)"
      using assms(2) by (auto split: if_splits)
    then show ?thesis using L by (simp add: lock_inv_def)
  next
    case (TakeBody pid)
    then obtain e where "s' = set_pc t (TakeUnlock pid) (s\<lparr>engine := e\<rparr>)"
      using assms(2) by (auto split: option.splits)
    then show ?thesis using L [of t] L TakeBody by (simp add: lock_inv_def)
  next
    case (TakeUnlock pid)
    then have "s' = set_pc t (TakeAcquire pid) (s\<lparr>mtx := None\<rparr>)" using assms(2) by simp
    then show ?thesis using L [of t] L TakeUnlock by (auto simp: lock_inv_def)
  next
    case (TakeAcquire pid)
    then obtain e p where "s' = set_pc t p (s\<lparr>engine := e\<rparr>)" "\<not> critical p"
      using assms(2) by (auto split: option.splits outcome.splits)
    then show ?thesis using L [of t] L TakeAcquire by (auto simp: lock_inv_def)
  next
    case (TakeSleep pid)
    then obtain e p where "s' = set_pc t p (s\<lparr>engine := e\<rparr>)" "\<not> critical p"
      using assms(2) by (auto split: option.splits outcome.splits)
    then show ?thesis using L [of t] L TakeSleep by (auto simp: lock_inv_def)
  next
    case (PutLock pid)
    then have f: "mtx s = None" "s' = set_pc t (PutBody pid) (s\<lparr>mtx := Some t\<rparr>)"
      using assms(2) by (auto split: if_splits)
    then show ?thesis using L by (simp add: lock_inv_def)
  next
    case (PutBody pid)
    then obtain e where "s' = set_pc t (PutUnlock pid) (s\<lparr>engine := e\<rparr>)"
      using assms(2) by (auto split: option.splits)
    then show ?thesis using L [of t] L PutBody by (simp add: lock_inv_def)
  next
    case (PutUnlock pid)
    then have "s' = set_pc t Idle (s\<lparr>mtx := None\<rparr>)" using assms(2) by simp
    then show ?thesis using L [of t] L PutUnlock by (auto simp: lock_inv_def)
  next
    case GetLock
    then have f: "mtx s = None" "s' = set_pc t GetBody (s\<lparr>mtx := Some t\<rparr>)"
      using assms(2) by (auto split: if_splits)
    then show ?thesis using L by (simp add: lock_inv_def)
  next
    case GetBody
    then obtain e r where "s' = set_pc t (GetUnlock r) (s\<lparr>engine := e\<rparr>)"
      using assms(2) by auto
    then show ?thesis using L [of t] L GetBody by (simp add: lock_inv_def)
  next
    case (GetUnlock res)
    then have "s' = set_pc t Idle (s\<lparr>mtx := None\<rparr>)" using assms(2) by simp
    then show ?thesis using L [of t] L GetUnlock by (auto simp: lock_inv_def)
  qed
qed

lemma step_lock_inv:
  assumes "lock_inv s" and "step ev s = Some s'"
  shows "lock_inv s'"
proof (cases ev)
  case (Call t c)
  then have f: "pcs s t = Idle" "s' = set_pc t (entry c) s"
    using assms(2) by (auto split: if_splits)
  have L: "\<And>u. critical (pcs s u) = (mtx s = Some u)"
    using assms(1) by (simp add: lock_inv_def)
  show ?thesis using f L [of t] L by (auto simp: lock_inv_def)
next
  case (Step t)
  then show ?thesis using assms exec_lock_inv by simp
qed

lemma run_lock_inv: "lock_inv s \<Longrightarrow> run evs s = Some s' \<Longrightarrow> lock_inv s'"
proof (induction evs arbitrary: s)
  case Nil
  then show ?case by simp
next
  case (Cons ev evs)
  then obtain s1 where s1: "step ev s = Some s1" "run evs s1 = Some s'"
    by (auto split: option.splits)
  then show ?case using Cons step_lock_inv by blast
qed

lemma init_lock_inv: "lock_inv (system_init e)"
  by (simp add: lock_inv_def system_init_def)


text \<open>
  C9. In every state reached by any interleaving of calls, a thread that is inside
  \<open>sems_[pid]->acquire()\<close> in \<open>takeForks\<close>, about to enter it or asleep in it, does not
  hold the engine's mutex: the locked block of \<open>takeForks\<close> has ended before.
\<close>

theorem no_lock_held_while_blocked:
  assumes "run sched (system_init e0) = Some s" and "in_acquire (pcs s t)"
  shows "mtx s \<noteq> Some t"
proof -
  have "lock_inv s" using run_lock_inv [OF init_lock_inv assms(1)] .
  then have "critical (pcs s t) = (mtx s = Some t)" by (simp add: lock_inv_def)
  moreover have "\<not> critical (pcs s t)" using assms(2) by (cases "pcs s t") simp_all
  ultimately show ?thesis by simp
qed

theorem no_lock_held_while_blocked_witness:
  "run [Call 0 (TakeForks 0), Step 0, Step 0, Step 0, Step 0,
      Call 1 (TakeForks 1), Step 1, Step 1, Step 1, Step 1] (system_init \<lparr>numPhils = 3, states = [THINKING, THINKING, THINKING],
      sems = [\<lparr>sem_v = 0\<rparr>, \<lparr>sem_v = 0\<rparr>, \<lparr>sem_v = 0\<rparr>], released = []\<rparr>) \<noteq> None
   \<and> pcs (the (run [Call 0 (TakeForks 0), Step 0, Step 0, Step 0, Step 0,
      Call 1 (TakeForks 1), Step 1, Step 1, Step 1, Step 1] (system_init \<lparr>numPhils = 3, states = [THINKING, THINKING, THINKING],
      sems = [\<lparr>sem_v = 0\<rparr>, \<lparr>sem_v = 0\<rparr>, \<lparr>sem_v = 0\<rparr>], released = []\<rparr>))) 1 = TakeSleep 1
   \<and> mtx (the (run [Call 0 (TakeForks 0), Step 0, Step 0, Step 0, Step 0,
      Call 1 (TakeForks 1), Step 1, Step 1, Step 1, Step 1] (system_init \<lparr>numPhils = 3, states = [THINKING, THINKING, THINKING],
      sems = [\<lparr>sem_v = 0\<rparr>, \<lparr>sem_v = 0\<rparr>, \<lparr>sem_v = 0\<rparr>], released = []\<rparr>))) \<noteq> Some 1"
proof -
  let ?e0 = "\<lparr>numPhils = 3, states = [THINKING, THINKING, THINKING],
      sems = [\<lparr>sem_v = 0\<rparr>, \<lparr>sem_v = 0\<rparr>, \<lparr>sem_v = 0\<rparr>], released = []\<rparr>"
  let ?s = "the (run [Call 0 (TakeForks 0), Step 0, Step 0, Step 0, Step 0,
      Call 1 (TakeForks 1), Step 1, Step 1, Step 1, Step 1] (system_init ?e0))"
  have ne: "run [Call 0 (TakeForks 0), Step 0, Step 0, Step 0, Step 0,
      Call 1 (TakeForks 1), Step 1, Step 1, Step 1, Step 1] (system_init ?e0) \<noteq> None"
    by (simp add: system_init_def set_pc_def takeForks_locked_def tryToEat_def at_def release_def
      acquire_def getStates_def sem_update_eq)
  then have r: "run [Call 0 (TakeForks 0), Step 0, Step 0, Step 0, Step 0,
      Call 1 (TakeForks 1), Step 1, Step 1, Step 1, Step 1] (system_init ?e0) = Some ?s"
    by simp
  have pc: "pcs ?s 1 = TakeSleep 1"
    by (simp add: system_init_def set_pc_def takeForks_locked_def tryToEat_def at_def release_def
      acquire_def getStates_def sem_update_eq)
  then have "in_acquire (pcs ?s 1)" by simp
  from no_lock_held_while_blocked [OF r this] ne pc show ?thesis by simp
qed

section \<open>getStates\<close>

lemma exec_pcs:
  assumes "exec t p s = Some s'"
  shows "\<exists>p'. pcs s' = (pcs s)(t := p') \<and> (\<forall>res. p' = GetUnlock res \<longrightarrow> res = states (engine s'))"
proof (cases p)
  case (TakeAcquire pid)
  then show ?thesis using assms by (auto split: option.splits outcome.splits)
next
  case (TakeSleep pid)
  then show ?thesis using assms by (auto split: option.splits outcome.splits)
qed (use assms in \<open>auto simp: getStates_def split: option.splits if_splits\<close>)

lemma exec_states:
  assumes "exec t p s = Some s'"
  shows "states (engine s') = states (engine s) \<or> (\<exists>pid. p = TakeBody pid) \<or> (\<exists>pid. p = PutBody pid)"
  using assms by (cases p) (auto simp: getStates_def split: option.splits if_splits)

lemma exec_copy_inv:
  assumes "lock_inv s" and "copy_inv s" and "exec t (pcs s t) s = Some s'"
  shows "copy_inv s'"
  unfolding copy_inv_def
proof (intro allI impI)
  fix u res assume u: "pcs s' u = GetUnlock res"
  obtain p' where p': "pcs s' = (pcs s)(t := p')"
      "\<And>r. p' = GetUnlock r \<Longrightarrow> r = states (engine s')"
    using exec_pcs [OF assms(3)] by blast
  show "res = states (engine s')"
  proof (cases "u = t")
    case True
    then show ?thesis using u p' by simp
  next
    case False
    then have old: "pcs s u = GetUnlock res" using u p'(1) by simp
    then have res: "res = states (engine s)" using assms(2) by (simp add: copy_inv_def)
    have "critical (pcs s u)" using old by simp
    then have mu: "mtx s = Some u" using assms(1) by (simp add: lock_inv_def)
    have "\<not> critical (pcs s t)" using assms(1) mu False by (auto simp: lock_inv_def)
    then have "states (engine s') = states (engine s)"
      using exec_states [OF assms(3)] by auto
    then show ?thesis using res by simp
  qed
qed

lemma step_copy_inv:
  assumes "lock_inv s" and "copy_inv s" and "step ev s = Some s'"
  shows "copy_inv s'"
proof (cases ev)
  case (Call t c)
  then have f: "pcs s t = Idle" "s' = set_pc t (entry c) s"
    using assms(3) by (auto split: if_splits)
  have "\<And>r. entry c \<noteq> GetUnlock r" by (cases c) simp_all
  then show ?thesis using f assms(2) by (auto simp: copy_inv_def)
next
  case (Step t)
  then show ?thesis using assms exec_copy_inv by simp
qed

lemma step_sinv:
  assumes "sinv n s" and "step ev s = Some s'"
  shows "sinv n s'"
  using assms step_wf [of s ev s'] step_lock_inv [of s ev s'] step_copy_inv [of s ev s']
  by (simp add: sinv_def)

lemma run_sinv: "sinv n s \<Longrightarrow> run evs s = Some s' \<Longrightarrow> sinv n s'"
proof (induction evs arbitrary: s)
  case Nil
  then show ?case by simp
next
  case (Cons ev evs)
  then obtain s1 where s1: "step ev s = Some s1" "run evs s1 = Some s'"
    by (auto split: option.splits)
  then show ?case using Cons step_sinv by blast
qed

lemma init_sinv: "PhilosophersSync_new n = Some e \<Longrightarrow> sinv n (system_init e)"
  using init_lock_inv [of e]
  by (auto simp: sinv_def PhilosophersSync_new_def wf_def make_sems_replicate copy_inv_def system_init_def)


text \<open>
  C8. In every reachable state \<open>getStates\<close> returns the state vector, which has
  \<open>n\<close> elements, each one of the three states, and leaves the engine (state vector and
  semaphores) as it was. The copy is made by a thread that holds \<open>m_\<close>, and until that
  thread unlocks, its copy is the engine's current state vector.
\<close>

theorem getStates_snapshot:
  assumes "PhilosophersSync_new n = Some e0" and "run sched (system_init e0) = Some s"
  shows "fst (getStates (engine s)) = states (engine s)
     \<and> snd (getStates (engine s)) = engine s
     \<and> length (fst (getStates (engine s))) = n
     \<and> set (fst (getStates (engine s))) \<subseteq> {THINKING, HUNGRY, EATING}
     \<and> map_option engine (exec t GetBody s) = Some (engine s)
     \<and> (pcs s t = GetBody \<longrightarrow> mtx s = Some t)
     \<and> (\<forall>res. pcs s t = GetUnlock res \<longrightarrow>
           mtx s = Some t \<and> res = states (engine s) \<and> length res = n)"
proof -
  have inv: "sinv n s" using run_sinv [OF init_sinv [OF assms(1)] assms(2)] .
  then have len: "length (states (engine s)) = n" by (simp add: sinv_def wf_def)
  have L: "critical (pcs s t) = (mtx s = Some t)" using inv by (simp add: sinv_def lock_inv_def)
  have C: "\<And>res. pcs s t = GetUnlock res \<Longrightarrow> res = states (engine s)"
    using inv by (simp add: sinv_def copy_inv_def)
  have vals: "set (states (engine s)) \<subseteq> {THINKING, HUNGRY, EATING}"
  proof
    fix x assume "x \<in> set (states (engine s))"
    show "x \<in> {THINKING, HUNGRY, EATING}" by (cases x) simp_all
  qed
  show ?thesis using len L C vals by (auto simp: getStates_def)
qed

theorem getStates_snapshot_witness:
  "PhilosophersSync_new 3 = Some \<lparr>numPhils = 3, states = [THINKING, THINKING, THINKING],
      sems = [\<lparr>sem_v = 0\<rparr>, \<lparr>sem_v = 0\<rparr>, \<lparr>sem_v = 0\<rparr>], released = []\<rparr>
   \<and> run [Call 0 GetStates, Step 0, Step 0] (system_init \<lparr>numPhils = 3, states = [THINKING, THINKING, THINKING],
      sems = [\<lparr>sem_v = 0\<rparr>, \<lparr>sem_v = 0\<rparr>, \<lparr>sem_v = 0\<rparr>], released = []\<rparr>) \<noteq> None
   \<and> pcs (the (run [Call 0 GetStates, Step 0, Step 0] (system_init \<lparr>numPhils = 3, states = [THINKING, THINKING, THINKING],
      sems = [\<lparr>sem_v = 0\<rparr>, \<lparr>sem_v = 0\<rparr>, \<lparr>sem_v = 0\<rparr>], released = []\<rparr>))) 0
       = GetUnlock [THINKING, THINKING, THINKING]
   \<and> mtx (the (run [Call 0 GetStates, Step 0, Step 0] (system_init \<lparr>numPhils = 3, states = [THINKING, THINKING, THINKING],
      sems = [\<lparr>sem_v = 0\<rparr>, \<lparr>sem_v = 0\<rparr>, \<lparr>sem_v = 0\<rparr>], released = []\<rparr>))) = Some 0
   \<and> getStates (engine (the (run [Call 0 GetStates, Step 0, Step 0] (system_init \<lparr>numPhils = 3, states = [THINKING, THINKING, THINKING],
      sems = [\<lparr>sem_v = 0\<rparr>, \<lparr>sem_v = 0\<rparr>, \<lparr>sem_v = 0\<rparr>], released = []\<rparr>))))
       = ([THINKING, THINKING, THINKING], \<lparr>numPhils = 3, states = [THINKING, THINKING, THINKING],
      sems = [\<lparr>sem_v = 0\<rparr>, \<lparr>sem_v = 0\<rparr>, \<lparr>sem_v = 0\<rparr>], released = []\<rparr>)"
proof -
  let ?e0 = "\<lparr>numPhils = 3, states = [THINKING, THINKING, THINKING],
      sems = [\<lparr>sem_v = 0\<rparr>, \<lparr>sem_v = 0\<rparr>, \<lparr>sem_v = 0\<rparr>], released = []\<rparr>"
  let ?sch = "[Call 0 GetStates, Step 0, Step 0]"
  let ?s = "the (run ?sch (system_init ?e0))"
  have new: "PhilosophersSync_new 3 = Some ?e0"
    by (simp add: PhilosophersSync_new_def BinarySemaphore_new_def numeral_3_eq_3)
  have ne: "run ?sch (system_init ?e0) \<noteq> None"
    by (simp add: system_init_def set_pc_def takeForks_locked_def tryToEat_def at_def release_def
      acquire_def getStates_def sem_update_eq)
  then have r: "run ?sch (system_init ?e0) = Some ?s"
    by simp
  have pc: "pcs ?s 0 = GetUnlock [THINKING, THINKING, THINKING]"
    by (simp add: system_init_def set_pc_def takeForks_locked_def tryToEat_def at_def release_def
      acquire_def getStates_def sem_update_eq)
  have en: "engine ?s = ?e0"
    by (simp add: system_init_def set_pc_def takeForks_locked_def tryToEat_def at_def release_def
      acquire_def getStates_def sem_update_eq)
  from getStates_snapshot [OF new r, of 0] new ne pc en show ?thesis
    by (simp add: getStates_def)
qed

end
